theory Spec2Isabelle
  imports Main "HOL-Library.Word" "HOL-Library.State_Monad"
begin

section \<open>The timestamp of libosmium (include/osmium/osm/timestamp.hpp)\<close>

text \<open>
  The header defines \<open>detail::parse_timestamp\<close>, the class \<open>Timestamp\<close> around one
  \<open>uint32_t\<close>, the two sentinels and the six comparison operators. It calls three
  functions of the C library, \<open>timegm\<close>, \<open>gmtime_r\<close> and \<open>strftime\<close>; they are
  modelled first, as POSIX describes them. \<open>time_t\<close> is taken to be a signed 64-bit
  integer and is modelled as \<open>int\<close>: \<open>parse_timestamp_fits\<close> below shows that no
  value the parser can produce leaves the 64-bit range. The narrowing to \<open>uint32_t\<close> is
  \<open>word_of_int\<close>, which reduces modulo \<open>2 ^ 32\<close>. Where the source has a branch
  for Windows, the other branch is the one modelled. \<open>gmtime_r\<close> fails only when the
  year does not fit an \<open>int\<close>, which no 32-bit number of seconds reaches, so the
  assertion in \<open>to_iso\<close> holds and the model of \<open>gmtime_r\<close> is total.
\<close>

subsection \<open>Errors\<close>

text \<open>\<open>std::invalid_argument\<close> with its message.\<close>

datatype error = Invalid_argument string

subsection \<open>The C library: struct tm, timegm, gmtime_r, strftime\<close>

record tm =
  tm_sec :: int
  tm_min :: int
  tm_hour :: int
  tm_mday :: int
  tm_mon :: int
  tm_year :: int
  tm_wday :: int
  tm_yday :: int
  tm_isdst :: int

definition isleap :: "int \<Rightarrow> bool" where
  "isleap y \<longleftrightarrow> y mod 4 = 0 \<and> (y mod 100 \<noteq> 0 \<or> y mod 400 = 0)"

definition year_length :: "int \<Rightarrow> int" where
  "year_length y = (if isleap y then 366 else 365)"

text \<open>The number of days of a year that lie before the first day of each month.\<close>

definition mon_yday :: "bool \<Rightarrow> int list" where
  "mon_yday leap =
     (if leap then [0, 31, 60, 91, 121, 152, 182, 213, 244, 274, 305, 335]
      else [0, 31, 59, 90, 120, 151, 181, 212, 243, 273, 304, 334])"

text \<open>
  Days from 1970-01-01 to the first of January of the year \<open>1900 + y\<close>: the year
  terms of the POSIX formula for "seconds since the epoch", with the divisions rounding
  down so that the formula also holds before 1970, as \<open>timegm\<close> computes it.
\<close>

definition days_before_year :: "int \<Rightarrow> int" where
  "days_before_year y =
     (y - 70) * 365 + (y - 69) div 4 - (y - 1) div 100 + (y + 299) div 400"

text \<open>
  \<open>timegm\<close>: the fields are taken as they are (a day of the month or a second beyond
  the end of its month or minute runs on into the next one), the month is brought into
  0..11 first, \<open>tm_wday\<close>, \<open>tm_yday\<close> and \<open>tm_isdst\<close> are ignored.
\<close>

definition timegm :: "tm \<Rightarrow> int" where
  "timegm t =
     (let y = tm_year t + tm_mon t div 12;
          m = tm_mon t mod 12;
          yday = mon_yday (isleap (1900 + y)) ! nat m + (tm_mday t - 1);
          days = days_before_year y + yday
      in days * 86400 + tm_hour t * 3600 + tm_min t * 60 + tm_sec t)"

text \<open>
  \<open>gmtime_r\<close>: the year is found by walking from 1970, a year at a time, until the
  day number falls inside the year; the month is the last one that starts on or before
  the day of the year.
\<close>

function offtime_year :: "int \<Rightarrow> int \<Rightarrow> int \<times> int" where
  "offtime_year y days =
     (if days < 0 then offtime_year (y - 1) (days + year_length (y - 1))
      else if year_length y \<le> days then offtime_year (y + 1) (days - year_length y)
      else (y, days))"
  by pat_completeness auto
termination
  by (relation "measure (\<lambda>(y, d). if d < 0 then nat (- d) + 366 else nat d)")
     (auto simp: year_length_def split: if_splits)

declare offtime_year.simps [simp del]

fun find_mon :: "int list \<Rightarrow> nat \<Rightarrow> int \<Rightarrow> nat" where
  "find_mon ip 0 d = 0"
| "find_mon ip (Suc m) d = (if d < ip ! Suc m then find_mon ip m d else Suc m)"

definition gmtime_r :: "int \<Rightarrow> tm" where
  "gmtime_r sse =
     (let days = sse div 86400;
          rem = sse mod 86400;
          (y, yd) = offtime_year 1970 days;
          ip = mon_yday (isleap y);
          m = find_mon ip 11 yd
      in \<lparr> tm_sec = rem mod 60, tm_min = rem div 60 mod 60, tm_hour = rem div 3600,
           tm_mday = yd - ip ! m + 1, tm_mon = int m, tm_year = y - 1900,
           tm_wday = (4 + days) mod 7, tm_yday = yd, tm_isdst = 0 \<rparr>)"

definition digit_char :: "int \<Rightarrow> char" where
  "digit_char d = ''0123456789'' ! nat d"

fun dec :: "nat \<Rightarrow> string" where
  "dec n = (if n < 10 then [digit_char (int n)]
            else dec (n div 10) @ [digit_char (int (n mod 10))])"

declare dec.simps [simp del]

text \<open>\<open>%Y\<close>: the year as a decimal number.\<close>

definition fmt_Y :: "int \<Rightarrow> string" where
  "fmt_Y y = (if y < 0 then CHR ''-'' # dec (nat (- y)) else dec (nat y))"

text \<open>\<open>%m\<close>, \<open>%d\<close>, \<open>%H\<close>, \<open>%M\<close>, \<open>%S\<close>: two digits, padded with a zero.\<close>

definition fmt_02 :: "int \<Rightarrow> string" where
  "fmt_02 v = [digit_char (v div 10), digit_char (v mod 10)]"

text \<open>
  \<open>strftime(buf, maxsize, "%Y-%m-%dT%H:%M:%SZ", &tm)\<close>: when the text and its
  terminating NUL fit into \<open>maxsize\<close> bytes, the text is written and its length returned;
  otherwise 0 is returned. The caller resizes its string to the returned length, so the
  model returns the string that is left.
\<close>

definition strftime :: "nat \<Rightarrow> tm \<Rightarrow> string" where
  "strftime maxsize t =
     (let out = fmt_Y (1900 + tm_year t) @ ''-'' @ fmt_02 (tm_mon t + 1) @ ''-'' @
                fmt_02 (tm_mday t) @ ''T'' @ fmt_02 (tm_hour t) @ '':'' @
                fmt_02 (tm_min t) @ '':'' @ fmt_02 (tm_sec t) @ ''Z''
      in if length out < maxsize then out else [])"

subsection \<open>detail::parse_timestamp\<close>

text \<open>
  \<open>str\<close> is a NUL-terminated C string, given as the bytes before the terminator;
  the byte read at the position of the terminator is NUL. The conditions of the source
  are joined by \<open>&&\<close> and read left to right, so a position is only read when all
  positions before it held a digit or a separator: no byte after the terminator is read.
  A byte is compared through its code (a byte of 128 or more fails the comparisons with
  \<open>'0'\<close> and \<open>'9'\<close> whether \<open>char\<close> is signed or not).
\<close>

definition str_at :: "string \<Rightarrow> nat \<Rightarrow> char" where
  "str_at str i = (if i < length str then str ! i else CHR 0x00)"

definition is_digit :: "char \<Rightarrow> bool" where
  "is_digit c \<longleftrightarrow> (48::nat) \<le> of_char c \<and> of_char c \<le> (57::nat)"

text \<open>\<open>c - '0'\<close>\<close>

definition digit_val :: "char \<Rightarrow> int" where
  "digit_val c = int (of_char c) - 48"

definition mon_lengths :: "int list" where
  "mon_lengths = [31, 29, 31, 30, 31, 30, 31, 31, 30, 31, 30, 31]"

definition shape_ok :: "string \<Rightarrow> bool" where
  "shape_ok str \<longleftrightarrow>
     is_digit (str_at str 0) \<and> is_digit (str_at str 1) \<and>
     is_digit (str_at str 2) \<and> is_digit (str_at str 3) \<and>
     str_at str 4 = CHR ''-'' \<and>
     is_digit (str_at str 5) \<and> is_digit (str_at str 6) \<and>
     str_at str 7 = CHR ''-'' \<and>
     is_digit (str_at str 8) \<and> is_digit (str_at str 9) \<and>
     str_at str 10 = CHR ''T'' \<and>
     is_digit (str_at str 11) \<and> is_digit (str_at str 12) \<and>
     str_at str 13 = CHR '':'' \<and>
     is_digit (str_at str 14) \<and> is_digit (str_at str 15) \<and>
     str_at str 16 = CHR '':'' \<and>
     is_digit (str_at str 17) \<and> is_digit (str_at str 18) \<and>
     str_at str 19 = CHR ''Z''"

definition parsed_tm :: "string \<Rightarrow> tm" where
  "parsed_tm str =
     \<lparr> tm_sec = digit_val (str_at str 17) * 10 + digit_val (str_at str 18),
       tm_min = digit_val (str_at str 14) * 10 + digit_val (str_at str 15),
       tm_hour = digit_val (str_at str 11) * 10 + digit_val (str_at str 12),
       tm_mday = digit_val (str_at str 8) * 10 + digit_val (str_at str 9),
       tm_mon = digit_val (str_at str 5) * 10 + digit_val (str_at str 6) - 1,
       tm_year = digit_val (str_at str 0) * 1000 + digit_val (str_at str 1) * 100 +
                 digit_val (str_at str 2) * 10 + digit_val (str_at str 3) - 1900,
       tm_wday = 0, tm_yday = 0, tm_isdst = 0 \<rparr>"

definition fields_ok :: "tm \<Rightarrow> bool" where
  "fields_ok t \<longleftrightarrow>
     tm_year t \<ge> 0 \<and>
     tm_mon t \<ge> 0 \<and> tm_mon t \<le> 11 \<and>
     tm_mday t \<ge> 1 \<and> tm_mday t \<le> mon_lengths ! nat (tm_mon t) \<and>
     tm_hour t \<ge> 0 \<and> tm_hour t \<le> 23 \<and>
     tm_min t \<ge> 0 \<and> tm_min t \<le> 59 \<and>
     tm_sec t \<ge> 0 \<and> tm_sec t \<le> 60"

definition parse_timestamp :: "string \<Rightarrow> error + int" where
  "parse_timestamp str =
     (if shape_ok str \<and> fields_ok (parsed_tm str) then Inr (timegm (parsed_tm str))
      else Inl (Invalid_argument ''can not parse timestamp''))"

subsection \<open>class Timestamp\<close>

record Timestamp =
  m_timestamp :: "32 word"

definition timestamp_length :: nat where
  "timestamp_length = 20 + 1"

text \<open>The three constructors: default, from an integer, from a string.\<close>

definition Timestamp_default :: Timestamp where
  "Timestamp_default = \<lparr> m_timestamp = 0 \<rparr>"

definition Timestamp_of_int :: "int \<Rightarrow> Timestamp" where
  "Timestamp_of_int timestamp = \<lparr> m_timestamp = word_of_int timestamp \<rparr>"

definition Timestamp_of_string :: "string \<Rightarrow> error + Timestamp" where
  "Timestamp_of_string timestamp =
     (case parse_timestamp timestamp of
        Inl e \<Rightarrow> Inl e
      | Inr t \<Rightarrow> Inr \<lparr> m_timestamp = word_of_int t \<rparr>)"

definition valid :: "Timestamp \<Rightarrow> bool" where
  "valid t \<longleftrightarrow> m_timestamp t \<noteq> 0"


definition seconds_since_epoch :: "Timestamp \<Rightarrow> int" where
  "seconds_since_epoch t = uint (m_timestamp t)"

definition to_uint32 :: "Timestamp \<Rightarrow> 32 word" where
  "to_uint32 t = m_timestamp t"



text \<open>
  The \<open>const\<close> member functions above and \<open>to_iso\<close> below are given as the value
  they return for an object that holds \<open>t\<close>. The member functions as statements
  that read and write the object, \<open>operator+=\<close> and \<open>operator-=\<close> among them,
  follow further down.
\<close>

definition to_iso :: "Timestamp \<Rightarrow> string" where
  "to_iso t =
     (if m_timestamp t \<noteq> 0
      then strftime timestamp_length (gmtime_r (seconds_since_epoch t))
      else [])"

definition start_of_time :: Timestamp where
  "start_of_time = Timestamp_of_int 1"

definition end_of_time :: Timestamp where
  "end_of_time = Timestamp_of_int (2 ^ 32 - 1)"

subsection \<open>Comparison operators\<close>

definition op_eq :: "Timestamp \<Rightarrow> Timestamp \<Rightarrow> bool" where
  "op_eq lhs rhs \<longleftrightarrow> to_uint32 lhs = to_uint32 rhs"

definition op_ne :: "Timestamp \<Rightarrow> Timestamp \<Rightarrow> bool" where
  "op_ne lhs rhs \<longleftrightarrow> \<not> op_eq lhs rhs"

definition op_lt :: "Timestamp \<Rightarrow> Timestamp \<Rightarrow> bool" where
  "op_lt lhs rhs \<longleftrightarrow> to_uint32 lhs < to_uint32 rhs"

definition op_gt :: "Timestamp \<Rightarrow> Timestamp \<Rightarrow> bool" where
  "op_gt lhs rhs \<longleftrightarrow> op_lt rhs lhs"

definition op_le :: "Timestamp \<Rightarrow> Timestamp \<Rightarrow> bool" where
  "op_le lhs rhs \<longleftrightarrow> \<not> op_lt rhs lhs"

definition op_ge :: "Timestamp \<Rightarrow> Timestamp \<Rightarrow> bool" where
  "op_ge lhs rhs \<longleftrightarrow> \<not> op_lt lhs rhs"

definition min_op_start_value :: Timestamp where
  "min_op_start_value = end_of_time"

definition max_op_start_value :: Timestamp where
  "max_op_start_value = start_of_time"

subsection \<open>The member functions as statements on the object\<close>














subsection \<open>Objects in a store: references, assignment, the free operators\<close>













subsection \<open>The text format as the specification words it\<close>

text \<open>
  These definitions follow the specification (section 4.1), not the source, and are
  compared with the parser below: the shape of the first 20 characters, the six fields
  as decimal numbers, and the ranges of the fields. The month is the number written in
  the text (01 to 12).
\<close>

definition spec_digit :: "char \<Rightarrow> bool" where
  "spec_digit c \<longleftrightarrow> c \<in> set ''0123456789''"

definition spec_shape :: "string \<Rightarrow> bool" where
  "spec_shape s \<longleftrightarrow>
     20 \<le> length s \<and>
     (\<forall>i \<in> set [0, 1, 2, 3, 5, 6, 8, 9, 11, 12, 14, 15, 17, 18]. spec_digit (s ! i)) \<and>
     s ! 4 = CHR ''-'' \<and> s ! 7 = CHR ''-'' \<and> s ! 10 = CHR ''T'' \<and>
     s ! 13 = CHR '':'' \<and> s ! 16 = CHR '':'' \<and> s ! 19 = CHR ''Z''"

definition spec_number :: "string \<Rightarrow> int" where
  "spec_number ds = foldl (\<lambda>a c. 10 * a + (int (of_char c) - 48)) 0 ds"

definition spec_year :: "string \<Rightarrow> int" where
  "spec_year s = spec_number (take 4 s)"

definition spec_month :: "string \<Rightarrow> int" where
  "spec_month s = spec_number (take 2 (drop 5 s))"

definition spec_day :: "string \<Rightarrow> int" where
  "spec_day s = spec_number (take 2 (drop 8 s))"

definition spec_hour :: "string \<Rightarrow> int" where
  "spec_hour s = spec_number (take 2 (drop 11 s))"

definition spec_minute :: "string \<Rightarrow> int" where
  "spec_minute s = spec_number (take 2 (drop 14 s))"

definition spec_second :: "string \<Rightarrow> int" where
  "spec_second s = spec_number (take 2 (drop 17 s))"

definition days_in_month :: "int list" where
  "days_in_month = [31, 29, 31, 30, 31, 30, 31, 31, 30, 31, 30, 31]"

text \<open>
  The ranges of section 4.1: month 01 to 12, day from 1 to the table's bound, hour up
  to 23, minute up to 59, second up to 60, and a year that is not negative.
\<close>

definition spec_in_range :: "string \<Rightarrow> bool" where
  "spec_in_range s \<longleftrightarrow>
     0 \<le> spec_year s \<and>
     1 \<le> spec_month s \<and> spec_month s \<le> 12 \<and>
     1 \<le> spec_day s \<and> spec_day s \<le> days_in_month ! nat (spec_month s - 1) \<and>
     0 \<le> spec_hour s \<and> spec_hour s \<le> 23 \<and>
     0 \<le> spec_minute s \<and> spec_minute s \<le> 59 \<and>
     0 \<le> spec_second s \<and> spec_second s \<le> 60"

text \<open>
  The calendar-to-epoch conversion applied to the six numbers of a text: whole days
  since 1970-01-01 times 86400, plus the time of day, with no special case for a second
  of 60.
\<close>

definition spec_epoch_seconds :: "string \<Rightarrow> int" where
  "spec_epoch_seconds s =
     (days_before_year (spec_year s - 1900) +
      mon_yday (isleap (spec_year s)) ! nat (spec_month s - 1) + (spec_day s - 1)) * 86400 +
     spec_hour s * 3600 + spec_minute s * 60 + spec_second s"

section \<open>Properties\<close>

subsection \<open>Calendar arithmetic\<close>

lemma div_succ:
  fixes k n :: int
  assumes "1 < n"
  shows "(k + 1) div n = k div n + (if (k + 1) mod n = 0 then 1 else 0)"
proof (cases "k mod n = n - 1")
  case True
  have "k + 1 = n * (k div n + 1) + 0"
    using mult_div_mod_eq [of n k] True by (simp add: algebra_simps)
  then have "(k + 1) div n = k div n + 1" and "(k + 1) mod n = 0"
    using assms int_div_pos_eq [of "k + 1" n "k div n + 1" 0]
      int_mod_pos_eq [of "k + 1" n "k div n + 1" 0] by simp_all
  then show ?thesis by simp
next
  case False
  have r: "0 \<le> k mod n" "k mod n < n" using assms by simp_all
  have "k + 1 = n * (k div n) + (k mod n + 1)" by simp
  moreover have "0 \<le> k mod n + 1" "k mod n + 1 < n" using r False by simp_all
  ultimately have "(k + 1) div n = k div n" and "(k + 1) mod n = k mod n + 1"
    using int_div_pos_eq [of "k + 1" n "k div n" "k mod n + 1"]
      int_mod_pos_eq [of "k + 1" n "k div n" "k mod n + 1"] by simp_all
  then show ?thesis using r by simp
qed

lemma days_before_year_Suc:
  "days_before_year (y + 1) = days_before_year y + year_length (1900 + y)"
proof -
  have a: "(y + 1 - 69) div 4 = (y - 69) div 4 + (if (y - 68) mod 4 = 0 then 1 else 0)"
    using div_succ [of 4 "y - 69"] by (simp add: algebra_simps)
  have b: "(y + 1 - 1) div 100 = (y - 1) div 100 + (if y mod 100 = 0 then 1 else 0)"
    using div_succ [of 100 "y - 1"] by (simp add: algebra_simps)
  have c: "(y + 1 + 299) div 400 = (y + 299) div 400 + (if (y + 300) mod 400 = 0 then 1 else 0)"
    using div_succ [of 400 "y + 299"] by (simp add: algebra_simps)
  have m4: "(y - 68) mod 4 = (1900 + y) mod 4"
    using mod_mult_self2 [of "y - 68" 4 492] by (simp add: add.commute)
  have m100: "y mod 100 = (1900 + y) mod 100"
    using mod_mult_self2 [of y 100 19] by (simp add: add.commute)
  have m400: "(y + 300) mod 400 = (1900 + y) mod 400"
    using mod_mult_self2 [of "y + 300" 400 4] by (simp add: add.commute)
  have d: "(1900 + y) mod 400 = 0 \<Longrightarrow> (1900 + y) mod 100 = 0"
    using dvd_trans [of 100 400 "1900 + y"] by (simp add: mod_eq_0_iff_dvd)
  have e: "(1900 + y) mod 100 = 0 \<Longrightarrow> (1900 + y) mod 4 = 0"
    using dvd_trans [of 4 100 "1900 + y"] by (simp add: mod_eq_0_iff_dvd)
  define p4 where "p4 \<longleftrightarrow> (1900 + y) mod 4 = 0"
  define p100 where "p100 \<longleftrightarrow> (1900 + y) mod 100 = 0"
  define p400 where "p400 \<longleftrightarrow> (1900 + y) mod 400 = 0"
  define q4 where "q4 = (y - 69) div 4"
  define q100 where "q100 = (y - 1) div 100"
  define q400 where "q400 = (y + 299) div 400"
  have yl: "year_length (1900 + y) = (if p4 \<and> (\<not> p100 \<or> p400) then 366 else 365)"
    by (simp only: year_length_def isleap_def p4_def p100_def p400_def)
  have imp: "p400 \<longrightarrow> p100" "p100 \<longrightarrow> p4"
    unfolding p4_def p100_def p400_def using d e by blast+
  have l: "days_before_year (y + 1) =
      (y + 1 - 70) * 365 + (q4 + (if p4 then 1 else 0)) - (q100 + (if p100 then 1 else 0)) +
      (q400 + (if p400 then 1 else 0))"
    by (simp only: days_before_year_def a b c m4 m100 m400 p4_def p100_def p400_def
        q4_def q100_def q400_def)
  have r: "days_before_year y = (y - 70) * 365 + q4 - q100 + q400"
    by (simp only: days_before_year_def q4_def q100_def q400_def)
  show ?thesis
    unfolding l r yl using imp by (cases p4; cases p100; cases p400) simp_all
qed

lemma days_before_year_step: "days_before_year y + 365 \<le> days_before_year (y + 1)"
  by (simp add: days_before_year_Suc year_length_def)

lemma days_before_year_mono_nat: "days_before_year y \<le> days_before_year (y + int n)"
proof (induction n)
  case 0
  show ?case by simp
next
  case (Suc n)
  have "days_before_year (y + int n) \<le> days_before_year (y + int n + 1)"
    using days_before_year_step [of "y + int n"] by simp
  with Suc show ?case by (simp add: ac_simps)
qed

lemma days_before_year_mono:
  assumes "y \<le> z"
  shows "days_before_year y \<le> days_before_year z"
  using days_before_year_mono_nat [of y "nat (z - y)"] assms by simp

lemma mon_cases:
  "0 \<le> (m::int) \<Longrightarrow> m \<le> 11 \<Longrightarrow>
   m = 0 \<or> m = 1 \<or> m = 2 \<or> m = 3 \<or> m = 4 \<or> m = 5 \<or> m = 6 \<or> m = 7 \<or> m = 8 \<or> m = 9 \<or>
   m = 10 \<or> m = 11"
  by arith

lemma yday_bounds:
  assumes "0 \<le> m" "m \<le> 11" "1 \<le> d" "d \<le> mon_lengths ! nat m"
  shows "0 \<le> mon_yday l ! nat m + (d - 1)"
    and "mon_yday l ! nat m + (d - 1) \<le> (if l then 366 else 365) - 1"
    and "mon_yday l ! nat m + (d - 1) = (if l then 366 else 365) - 1 \<longleftrightarrow> m = 11 \<and> d = 31"
  using mon_cases [OF assms(1,2)] assms(3,4)
  by (auto simp: mon_yday_def mon_lengths_def)

text \<open>
  The two models of the C library agree: converting a number of seconds to calendar
  fields with \<open>gmtime_r\<close> and back with \<open>timegm\<close> gives the number again, for
  every number.
\<close>

lemma offtime_year_sound:
  "offtime_year y d = (Y, r) \<Longrightarrow>
   0 \<le> r \<and> r < year_length Y \<and>
   d = days_before_year (Y - 1900) - days_before_year (y - 1900) + r"
proof (induction y d rule: offtime_year.induct)
  case (1 y days)
  have prev: "days_before_year (y - 1900) =
      days_before_year (y - 1 - 1900) + year_length (y - 1)"
    using days_before_year_Suc [of "y - 1 - 1900"] by simp
  have nxt: "days_before_year (y + 1 - 1900) =
      days_before_year (y - 1900) + year_length y"
    using days_before_year_Suc [of "y - 1900"] by (simp add: algebra_simps)
  show ?case
  proof (cases "days < 0")
    case True
    with "1.prems" have "offtime_year (y - 1) (days + year_length (y - 1)) = (Y, r)"
      by (subst (asm) offtime_year.simps) simp
    from "1.IH"(1) [OF True this] prev show ?thesis by simp
  next
    case False
    show ?thesis
    proof (cases "year_length y \<le> days")
      case True
      with False "1.prems" have "offtime_year (y + 1) (days - year_length y) = (Y, r)"
        by (subst (asm) offtime_year.simps) simp
      from "1.IH"(2) [OF False True this] nxt show ?thesis by simp
    next
      case f: False
      with False "1.prems" have "Y = y" "r = days"
        by (subst (asm) offtime_year.simps, simp)+
      with False f show ?thesis by simp
    qed
  qed
qed

lemma find_mon_le: "find_mon ip n d \<le> n"
  by (induction n) auto

lemma time_of_day: "(r::int) div 3600 * 3600 + r div 60 mod 60 * 60 + r mod 60 = r"
proof -
  define q where "q = r div 60"
  define h where "h = q div 60"
  define m where "m = q mod 60"
  define s where "s = r mod 60"
  have a: "r div 3600 = h"
    unfolding h_def q_def by (simp add: div_mult2_eq [symmetric])
  have b: "q = h * 60 + m" unfolding h_def m_def by simp
  have c: "r = q * 60 + s" unfolding q_def s_def by simp
  have "h * 3600 + m * 60 + s = r" using b c by linarith
  then show ?thesis by (simp only: a m_def [symmetric] q_def [symmetric] s_def [symmetric])
qed

lemma timegm_gmtime_r: "timegm (gmtime_r sse) = sse"
proof -
  obtain y yd where o: "offtime_year 1970 (sse div 86400) = (y, yd)"
    by (cases "offtime_year 1970 (sse div 86400)")
  define m where "m = find_mon (mon_yday (isleap y)) 11 yd"
  have m: "m \<le> 11" unfolding m_def by (rule find_mon_le)
  then have md: "int m div 12 = 0" "int m mod 12 = int m" by simp_all
  from offtime_year_sound [OF o]
  have d: "sse div 86400 = days_before_year (y - 1900) + yd"
    by (simp add: days_before_year_def)
  have "timegm (gmtime_r sse) =
      (days_before_year (y - 1900) + yd) * 86400 +
      (sse mod 86400 div 3600 * 3600 + sse mod 86400 div 60 mod 60 * 60 + sse mod 86400 mod 60)"
    by (simp add: timegm_def gmtime_r_def o Let_def m_def [symmetric] md)
  also have "\<dots> = sse div 86400 * 86400 + sse mod 86400"
    by (simp only: time_of_day d)
  finally show ?thesis by simp
qed

subsection \<open>The parser against the specification's wording\<close>

lemma is_digit_iff: "is_digit c \<longleftrightarrow> spec_digit c"
proof
  assume "spec_digit c"
  then show "is_digit c" by (auto simp: spec_digit_def is_digit_def)
next
  assume d: "is_digit c"
  define n :: nat where "n = of_char c"
  from d have "48 \<le> n \<and> n \<le> 57" by (simp add: is_digit_def n_def)
  then have "n = of_char CHR ''0'' \<or> n = of_char CHR ''1'' \<or> n = of_char CHR ''2'' \<or>
      n = of_char CHR ''3'' \<or> n = of_char CHR ''4'' \<or> n = of_char CHR ''5'' \<or>
      n = of_char CHR ''6'' \<or> n = of_char CHR ''7'' \<or> n = of_char CHR ''8'' \<or>
      n = of_char CHR ''9''"
    by (simp; arith)
  then have "c \<in> set ''0123456789''"
    unfolding n_def of_char_eq_iff by auto
  then show "spec_digit c" by (simp add: spec_digit_def)
qed

lemma take2_drop: "Suc i < length s \<Longrightarrow> take 2 (drop i s) = [s ! i, s ! Suc i]"
  by (simp add: numeral_2_eq_2 take_Suc_conv_app_nth)

lemma take4: "3 < length s \<Longrightarrow> take 4 s = [s ! 0, s ! 1, s ! 2, s ! 3]"
  by (simp add: numeral_eq_Suc take_Suc_conv_app_nth del: length_greater_0_conv)

lemma shape_ok_iff: "shape_ok s \<longleftrightarrow> spec_shape s"
proof
  assume "spec_shape s"
  then show "shape_ok s"
    by (simp add: spec_shape_def shape_ok_def str_at_def is_digit_iff del: length_greater_0_conv)
next
  assume a: "shape_ok s"
  then have "str_at s 19 = CHR ''Z''" by (simp add: shape_ok_def)
  then have "20 \<le> length s" by (simp add: str_at_def split: if_splits)
  with a show "spec_shape s"
    by (simp add: spec_shape_def shape_ok_def str_at_def is_digit_iff del: length_greater_0_conv)
qed

lemma fields_spec:
  assumes "20 \<le> length s"
  shows "parsed_tm s = \<lparr> tm_sec = spec_second s, tm_min = spec_minute s, tm_hour = spec_hour s,
       tm_mday = spec_day s, tm_mon = spec_month s - 1, tm_year = spec_year s - 1900,
       tm_wday = 0, tm_yday = 0, tm_isdst = 0 \<rparr>"
  using assms
  by (simp add: parsed_tm_def spec_second_def spec_minute_def spec_hour_def spec_day_def spec_month_def
      spec_year_def spec_number_def take2_drop take4 str_at_def digit_val_def
      del: length_greater_0_conv)

lemma spec_digit_val: "spec_digit c \<Longrightarrow> 0 \<le> digit_val c \<and> digit_val c \<le> 9"
  by (auto simp: spec_digit_def digit_val_def)

lemma spec_fields_nonneg:
  assumes "spec_shape s"
  shows "0 \<le> spec_year s" "0 \<le> spec_month s" "0 \<le> spec_day s" "0 \<le> spec_hour s"
    "0 \<le> spec_minute s" "0 \<le> spec_second s"
proof -
  have len: "20 \<le> length s" using assms by (simp add: spec_shape_def)
  have d: "0 \<le> digit_val (s ! i)"
    if "i \<in> set [0, 1, 2, 3, 5, 6, 8, 9, 11, 12, 14, 15, 17, 18]" for i
    using assms that spec_digit_val [of "s ! i"] unfolding spec_shape_def by blast
  have t: "tm_year (parsed_tm s) = spec_year s - 1900" "tm_mon (parsed_tm s) = spec_month s - 1"
    "tm_mday (parsed_tm s) = spec_day s" "tm_hour (parsed_tm s) = spec_hour s"
    "tm_min (parsed_tm s) = spec_minute s" "tm_sec (parsed_tm s) = spec_second s"
    by (simp_all add: fields_spec [OF len])
  have n: "str_at s i = s ! i" if "i < 20" for i
    using that len by (simp add: str_at_def)
  show "0 \<le> spec_year s"
    using t(1) d [of 0] d [of 1] d [of 2] d [of 3] by (simp add: parsed_tm_def n)
  show "0 \<le> spec_month s"
    using t(2) d [of 5] d [of 6] by (simp add: parsed_tm_def n)
  show "0 \<le> spec_day s"
    using t(3) d [of 8] d [of 9] by (simp add: parsed_tm_def n)
  show "0 \<le> spec_hour s"
    using t(4) d [of 11] d [of 12] by (simp add: parsed_tm_def n)
  show "0 \<le> spec_minute s"
    using t(5) d [of 14] d [of 15] by (simp add: parsed_tm_def n)
  show "0 \<le> spec_second s"
    using t(6) d [of 17] d [of 18] by (simp add: parsed_tm_def n)
qed

lemma timegm_spec:
  assumes "1 \<le> spec_month s" "spec_month s \<le> 12"
  shows "timegm \<lparr> tm_sec = spec_second s, tm_min = spec_minute s, tm_hour = spec_hour s,
       tm_mday = spec_day s, tm_mon = spec_month s - 1, tm_year = spec_year s - 1900,
       tm_wday = 0, tm_yday = 0, tm_isdst = 0 \<rparr> = spec_epoch_seconds s"
proof -
  have "(spec_month s - 1) div 12 = 0" "(spec_month s - 1) mod 12 = spec_month s - 1"
    using assms by simp_all
  then show ?thesis by (simp add: timegm_def spec_epoch_seconds_def Let_def)
qed

lemma parse_timestamp_eq:
  "parse_timestamp s =
     (if spec_shape s \<and> spec_in_range s \<and> 1900 \<le> spec_year s then Inr (spec_epoch_seconds s)
      else Inl (Invalid_argument ''can not parse timestamp''))"
proof (cases "spec_shape s")
  case False
  then show ?thesis by (simp add: parse_timestamp_def shape_ok_iff)
next
  case True
  then have len: "20 \<le> length s" by (simp add: spec_shape_def)
  note nn = spec_fields_nonneg [OF True]
  have ok: "fields_ok (parsed_tm s) \<longleftrightarrow> spec_in_range s \<and> 1900 \<le> spec_year s"
    using nn by (auto simp: fields_ok_def fields_spec [OF len] spec_in_range_def
        mon_lengths_def days_in_month_def)
  show ?thesis
  proof (cases "spec_in_range s \<and> 1900 \<le> spec_year s")
    case False
    with True ok show ?thesis by (simp add: parse_timestamp_def shape_ok_iff)
  next
    case r: True
    then have "1 \<le> spec_month s" "spec_month s \<le> 12" by (simp_all add: spec_in_range_def)
    then have "timegm (parsed_tm s) = spec_epoch_seconds s"
      by (simp only: fields_spec [OF len] timegm_spec)
    with True ok r show ?thesis by (simp add: parse_timestamp_def shape_ok_iff)
  qed
qed

subsection \<open>Bounds on the result of the conversion\<close>

lemma pre_epoch_days:
  assumes "y \<le> 69" "0 \<le> m" "m \<le> 11" "1 \<le> d" "d \<le> mon_lengths ! nat m"
  shows "days_before_year y + mon_yday (isleap (1900 + y)) ! nat m + (d - 1) \<le> - 1"
    and "days_before_year y + mon_yday (isleap (1900 + y)) ! nat m + (d - 1) = - 1 \<longleftrightarrow>
         y = 69 \<and> m = 11 \<and> d = 31"
proof -
  define yd where "yd = mon_yday (isleap (1900 + y)) ! nat m + (d - 1)"
  have yl: "year_length (1900 + y) = (if isleap (1900 + y) then 366 else 365)"
    by (simp add: year_length_def)
  have u: "yd \<le> year_length (1900 + y) - 1"
    and e: "yd = year_length (1900 + y) - 1 \<longleftrightarrow> m = 11 \<and> d = 31"
    unfolding yd_def yl using yday_bounds(2,3) [OF assms(2-5)] by blast+
  have s: "days_before_year y + year_length (1900 + y) = days_before_year (y + 1)"
    by (simp add: days_before_year_Suc)
  have le0: "days_before_year (y + 1) \<le> 0"
    using days_before_year_mono [of "y + 1" 70] assms(1) by (simp add: days_before_year_def)
  have lt0: "days_before_year (y + 1) \<le> - 365" if "y \<le> 68"
    using days_before_year_mono [of "y + 1" 69] that by (simp add: days_before_year_def)
  have eq0: "days_before_year (y + 1) = 0 \<longleftrightarrow> y = 69"
  proof
    assume "days_before_year (y + 1) = 0"
    with lt0 assms(1) show "y = 69" by (cases "y \<le> 68") simp_all
  next
    assume "y = 69"
    then show "days_before_year (y + 1) = 0" by (simp add: days_before_year_def)
  qed
  show "days_before_year y + mon_yday (isleap (1900 + y)) ! nat m + (d - 1) \<le> - 1"
    using u s le0 unfolding yd_def by linarith
  show "days_before_year y + mon_yday (isleap (1900 + y)) ! nat m + (d - 1) = - 1 \<longleftrightarrow>
         y = 69 \<and> m = 11 \<and> d = 31"
    using u e s le0 eq0 unfolding yd_def by linarith
qed

lemma spec_epoch_pre_1970:
  assumes "spec_in_range s" "spec_year s \<le> 1969"
  shows "spec_epoch_seconds s \<le> 0"
    and "spec_epoch_seconds s = 0 \<longleftrightarrow>
         spec_year s = 1969 \<and> spec_month s = 12 \<and> spec_day s = 31 \<and>
         spec_hour s = 23 \<and> spec_minute s = 59 \<and> spec_second s = 60"
proof -
  define days where "days = days_before_year (spec_year s - 1900) +
      mon_yday (isleap (spec_year s)) ! nat (spec_month s - 1) + (spec_day s - 1)"
  have r: "spec_hour s \<le> 23" "spec_minute s \<le> 59" "spec_second s \<le> 60"
    "0 \<le> spec_hour s" "0 \<le> spec_minute s" "0 \<le> spec_second s"
    using assms(1) by (simp_all add: spec_in_range_def)
  have m: "0 \<le> spec_month s - 1" "spec_month s - 1 \<le> 11" "1 \<le> spec_day s"
    "spec_day s \<le> mon_lengths ! nat (spec_month s - 1)"
    using assms(1) by (simp_all add: spec_in_range_def mon_lengths_def days_in_month_def)
  have y: "spec_year s - 1900 \<le> 69" using assms(2) by simp
  have d: "days \<le> - 1"
    and de: "days = - 1 \<longleftrightarrow> spec_year s = 1969 \<and> spec_month s = 12 \<and> spec_day s = 31"
    using pre_epoch_days [OF y m] unfolding days_def by simp_all
  have t: "spec_epoch_seconds s =
      days * 86400 + spec_hour s * 3600 + spec_minute s * 60 + spec_second s"
    by (simp add: spec_epoch_seconds_def days_def)
  show "spec_epoch_seconds s \<le> 0" unfolding t using d r by linarith
  show "spec_epoch_seconds s = 0 \<longleftrightarrow>
         spec_year s = 1969 \<and> spec_month s = 12 \<and> spec_day s = 31 \<and>
         spec_hour s = 23 \<and> spec_minute s = 59 \<and> spec_second s = 60"
    unfolding t using d de r by linarith
qed

lemma spec_epoch_lower:
  assumes "spec_in_range s" "1900 \<le> spec_year s"
  shows "- 2208988800 \<le> spec_epoch_seconds s"
proof -
  define yd where "yd = mon_yday (isleap (spec_year s)) ! nat (spec_month s - 1) + (spec_day s - 1)"
  define dy where "dy = days_before_year (spec_year s - 1900)"
  have m: "0 \<le> spec_month s - 1" "spec_month s - 1 \<le> 11" "1 \<le> spec_day s"
    "spec_day s \<le> mon_lengths ! nat (spec_month s - 1)"
    using assms(1) by (simp_all add: spec_in_range_def mon_lengths_def days_in_month_def)
  have r: "0 \<le> spec_hour s" "0 \<le> spec_minute s" "0 \<le> spec_second s"
    using assms(1) by (simp_all add: spec_in_range_def)
  have "days_before_year 0 \<le> dy"
    unfolding dy_def using assms(2) by (intro days_before_year_mono) simp
  then have dy: "- 25567 \<le> dy"
    by (simp add: days_before_year_def)
  have yd: "0 \<le> yd"
    unfolding yd_def by (rule yday_bounds(1) [OF m])
  have t: "spec_epoch_seconds s =
      (dy + yd) * 86400 + spec_hour s * 3600 + spec_minute s * 60 + spec_second s"
    by (simp add: spec_epoch_seconds_def dy_def yd_def)
  from dy yd have "- 25567 \<le> dy + yd" by simp
  then have "- 2208988800 \<le> (dy + yd) * 86400" by simp
  then show ?thesis unfolding t using r by linarith
qed

lemma spec_epoch_upper:
  assumes "spec_in_range s" "spec_year s \<le> 9999"
  shows "spec_epoch_seconds s \<le> 253402300800"
proof -
  define yd where "yd = mon_yday (isleap (spec_year s)) ! nat (spec_month s - 1) + (spec_day s - 1)"
  define dy where "dy = days_before_year (spec_year s - 1900)"
  have m: "0 \<le> spec_month s - 1" "spec_month s - 1 \<le> 11" "1 \<le> spec_day s"
    "spec_day s \<le> mon_lengths ! nat (spec_month s - 1)"
    using assms(1) by (simp_all add: spec_in_range_def mon_lengths_def days_in_month_def)
  have r: "spec_hour s \<le> 23" "spec_minute s \<le> 59" "spec_second s \<le> 60"
    using assms(1) by (simp_all add: spec_in_range_def)
  have yl: "year_length (spec_year s) = (if isleap (spec_year s) then 366 else 365)"
    by (simp add: year_length_def)
  have s: "dy + year_length (spec_year s) = days_before_year (spec_year s - 1900 + 1)"
    unfolding dy_def using days_before_year_Suc [of "spec_year s - 1900"] by simp
  have "days_before_year (spec_year s - 1900 + 1) \<le> days_before_year 8100"
    using assms(2) by (intro days_before_year_mono) simp
  moreover have "days_before_year 8100 = 2932897"
    by (simp add: days_before_year_def)
  ultimately have dy: "dy + year_length (spec_year s) \<le> 2932897"
    using s by simp
  have yd: "yd \<le> year_length (spec_year s) - 1"
    unfolding yd_def yl by (rule yday_bounds(2) [OF m])
  have t: "spec_epoch_seconds s =
      (dy + yd) * 86400 + spec_hour s * 3600 + spec_minute s * 60 + spec_second s"
    by (simp add: spec_epoch_seconds_def dy_def yd_def)
  from dy yd have "dy + yd \<le> 2932896" by simp
  then have "(dy + yd) * 86400 \<le> 253402214400" by simp
  then show ?thesis unfolding t using r by linarith
qed

lemma spec_year_upper:
  assumes "spec_shape s"
  shows "spec_year s \<le> 9999"
proof -
  have len: "20 \<le> length s" using assms by (simp add: spec_shape_def)
  have d: "digit_val (s ! i) \<le> 9" if "i \<in> set [0, 1, 2, 3]" for i
    using assms that spec_digit_val [of "s ! i"] unfolding spec_shape_def by auto
  have n: "str_at s i = s ! i" if "i < 20" for i
    using that len by (simp add: str_at_def)
  have "tm_year (parsed_tm s) = spec_year s - 1900"
    by (simp add: fields_spec [OF len])
  then show ?thesis
    using d [of 0] d [of 1] d [of 2] d [of 3] by (simp add: parsed_tm_def n)
qed

lemma parse_timestamp_fits:
  assumes "parse_timestamp s = Inr t"
  shows "- (2 ^ 63) \<le> t \<and> t < 2 ^ 63"
proof -
  from assms have v: "spec_shape s" "spec_in_range s" "1900 \<le> spec_year s"
    and t: "t = spec_epoch_seconds s"
    by (auto simp: parse_timestamp_eq split: if_splits)
  from spec_epoch_lower [OF v(2,3)] spec_epoch_upper [OF v(2) spec_year_upper [OF v(1)]]
  show ?thesis unfolding t by simp
qed

lemma Timestamp_of_string_eq:
  "Timestamp_of_string s =
     (if spec_shape s \<and> spec_in_range s \<and> 1900 \<le> spec_year s
      then Inr (Timestamp_of_int (spec_epoch_seconds s))
      else Inl (Invalid_argument ''can not parse timestamp''))"
  by (simp add: Timestamp_of_string_def parse_timestamp_eq Timestamp_of_int_def)

lemma seconds_since_epoch_of_int:
  "seconds_since_epoch (Timestamp_of_int t) = t mod 2 ^ 32"
  by (simp add: seconds_since_epoch_def Timestamp_of_int_def uint_word_of_int)

subsection \<open>Running the member functions\<close>








section \<open>The claims\<close>

subsection \<open>Formatting and parsing at given values\<close>

text \<open>
  Claim C1. For each of the representation values 1, 1000000, 1500000000 and
  0xFFFFFFFE, the formatter produces a string of 20 characters, and parsing that string
  gives the value back.
\<close>

theorem round_trip:
  "\<forall>v \<in> {1, 1000000, 1500000000, 0xFFFFFFFE}.
     length (to_iso (Timestamp_of_int v)) = 20 \<and>
     Timestamp_of_string (to_iso (Timestamp_of_int v)) = Inr (Timestamp_of_int v)"
proof -
  have "length (to_iso (Timestamp_of_int 1)) = 20"
    and "Timestamp_of_string (to_iso (Timestamp_of_int 1)) = Inr (Timestamp_of_int 1)"
    by code_simp+
  moreover have "length (to_iso (Timestamp_of_int 1000000)) = 20"
    and "Timestamp_of_string (to_iso (Timestamp_of_int 1000000)) = Inr (Timestamp_of_int 1000000)"
    by code_simp+
  moreover have "length (to_iso (Timestamp_of_int 1500000000)) = 20"
    and "Timestamp_of_string (to_iso (Timestamp_of_int 1500000000)) =
         Inr (Timestamp_of_int 1500000000)"
    by code_simp+
  moreover have "length (to_iso (Timestamp_of_int 0xFFFFFFFE)) = 20"
    and "Timestamp_of_string (to_iso (Timestamp_of_int 0xFFFFFFFE)) =
         Inr (Timestamp_of_int 0xFFFFFFFE)"
    by code_simp+
  ultimately show ?thesis by blast
qed

theorem round_trip_witness:
  "to_iso (Timestamp_of_int 1500000000) = ''2017-07-14T02:40:00Z'' \<and>
   Timestamp_of_string (to_iso (Timestamp_of_int 1500000000)) = Inr (Timestamp_of_int 1500000000)"
proof -
  have "to_iso (Timestamp_of_int 1500000000) = ''2017-07-14T02:40:00Z''" by code_simp
  with round_trip show ?thesis by blast
qed

text \<open>
  Claim C3. The formatter applied to the representation value 0 produces the empty
  string, and the parser applied to the empty string fails with the parse error.
\<close>

theorem invalid_zero:
  "to_iso (Timestamp_of_int 0) = [] \<and> to_iso Timestamp_default = [] \<and>
   parse_timestamp [] = Inl (Invalid_argument ''can not parse timestamp'') \<and>
   Timestamp_of_string [] = Inl (Invalid_argument ''can not parse timestamp'')"
  by (simp add: to_iso_def Timestamp_of_int_def Timestamp_default_def parse_timestamp_def
      Timestamp_of_string_def shape_ok_def str_at_def is_digit_def)

text \<open>
  Claim C4. The text "2016-07-25T09:30:00Z" parses to the representation value
  1469439000, and formatting 1469439000 yields exactly "2016-07-25T09:30:00Z".
\<close>

theorem literal_scenario:
  "parse_timestamp ''2016-07-25T09:30:00Z'' = Inr 1469439000 \<and>
   Timestamp_of_string ''2016-07-25T09:30:00Z'' = Inr (Timestamp_of_int 1469439000) \<and>
   m_timestamp (Timestamp_of_int 1469439000) = 1469439000 \<and>
   to_iso (Timestamp_of_int 1469439000) = ''2016-07-25T09:30:00Z''"
proof -
  have "parse_timestamp ''2016-07-25T09:30:00Z'' = Inr 1469439000" by code_simp
  moreover have "Timestamp_of_string ''2016-07-25T09:30:00Z'' = Inr (Timestamp_of_int 1469439000)"
    by code_simp
  moreover have "m_timestamp (Timestamp_of_int 1469439000) = 1469439000"
    by (simp add: Timestamp_of_int_def)
  moreover have "to_iso (Timestamp_of_int 1469439000) = ''2016-07-25T09:30:00Z''" by code_simp
  ultimately show ?thesis by simp
qed

text \<open>
  Claim C9. Parsing "1970-01-01T00:00:00Z" succeeds and yields the representation
  value 0, the value reserved for an unset timestamp: the result is not valid, and it
  formats to the empty string, not to the text it was parsed from.
\<close>

theorem epoch_text_is_invalid:
  "parse_timestamp ''1970-01-01T00:00:00Z'' = Inr 0 \<and>
   Timestamp_of_string ''1970-01-01T00:00:00Z'' = Inr \<lparr> m_timestamp = 0 \<rparr> \<and>
   \<not> valid \<lparr> m_timestamp = 0 \<rparr> \<and>
   to_iso \<lparr> m_timestamp = 0 \<rparr> = [] \<and>
   to_iso \<lparr> m_timestamp = 0 \<rparr> \<noteq> ''1970-01-01T00:00:00Z''"
proof -
  have "parse_timestamp ''1970-01-01T00:00:00Z'' = Inr 0" by code_simp
  moreover have "Timestamp_of_string ''1970-01-01T00:00:00Z'' = Inr \<lparr> m_timestamp = 0 \<rparr>"
    by code_simp
  moreover have "\<not> valid \<lparr> m_timestamp = 0 \<rparr>" by (simp add: valid_def)
  moreover have "to_iso \<lparr> m_timestamp = 0 \<rparr> = []" by (simp add: to_iso_def)
  ultimately show ?thesis by simp
qed

subsection \<open>Ordering and the sentinels\<close>

text \<open>
  Claim C5. For all timestamps a, b and c, the six comparison operators agree with the
  comparison of \<open>seconds_since_epoch\<close> as unsigned 32-bit numbers; the order is total
  and transitive, two timestamps that are each below or equal to the other are equal, and
  the invalid value 0 is strictly before \<open>start_of_time\<close>, whose value is 1.
\<close>

theorem comparisons:
  "(op_eq a b \<longleftrightarrow> seconds_since_epoch a = seconds_since_epoch b) \<and>
   (op_ne a b \<longleftrightarrow> seconds_since_epoch a \<noteq> seconds_since_epoch b) \<and>
   (op_lt a b \<longleftrightarrow> seconds_since_epoch a < seconds_since_epoch b) \<and>
   (op_gt a b \<longleftrightarrow> seconds_since_epoch a > seconds_since_epoch b) \<and>
   (op_le a b \<longleftrightarrow> seconds_since_epoch a \<le> seconds_since_epoch b) \<and>
   (op_ge a b \<longleftrightarrow> seconds_since_epoch a \<ge> seconds_since_epoch b) \<and>
   0 \<le> seconds_since_epoch a \<and> seconds_since_epoch a < 2 ^ 32 \<and>
   (op_le a b \<or> op_le b a) \<and>
   (op_le a b \<and> op_le b c \<longrightarrow> op_le a c) \<and>
   (op_le a b \<and> op_le b a \<longrightarrow> op_eq a b \<and> a = b) \<and>
   (op_eq a b \<longleftrightarrow> a = b) \<and>
   op_lt (Timestamp_of_int 0) start_of_time \<and>
   m_timestamp start_of_time = 1"
proof -
  have b: "uint (m_timestamp a) < 2 ^ 32"
    using uint_bounded [of "m_timestamp a"] by simp
  have e: "m_timestamp a = m_timestamp b \<longleftrightarrow> a = b" by auto
  show ?thesis
    using b e
    by (auto simp: op_eq_def op_ne_def op_lt_def op_gt_def op_le_def op_ge_def to_uint32_def
        seconds_since_epoch_def word_less_def word_uint_eq_iff start_of_time_def
        Timestamp_of_int_def)
qed

theorem comparisons_witness:
  "op_le (Timestamp_of_int 1) (Timestamp_of_int 2) \<and>
   op_le (Timestamp_of_int 2) (Timestamp_of_int 3) \<and>
   op_le (Timestamp_of_int 1) (Timestamp_of_int 3) \<and>
   op_le (Timestamp_of_int 7) (Timestamp_of_int 7) \<and>
   op_eq (Timestamp_of_int 7) (Timestamp_of_int 7)"
proof -
  have h: "op_le (Timestamp_of_int 1) (Timestamp_of_int 2)"
    "op_le (Timestamp_of_int 2) (Timestamp_of_int 3)"
    "op_le (Timestamp_of_int 7) (Timestamp_of_int 7)"
    by (simp_all add: op_le_def op_lt_def to_uint32_def Timestamp_of_int_def)
  show ?thesis
    using h comparisons [of "Timestamp_of_int 1" "Timestamp_of_int 2" "Timestamp_of_int 3"]
      comparisons [of "Timestamp_of_int 7" "Timestamp_of_int 7"]
    by blast
qed

text \<open>
  Claim C6. \<open>start_of_time()\<close> has the representation value 1 and is strictly less
  than every other valid timestamp; \<open>end_of_time()\<close> has the value 0xFFFFFFFF and is
  strictly greater than every other valid timestamp. Both are constants: they take no
  input and have no failing case.
\<close>

theorem sentinels:
  "m_timestamp start_of_time = 1 \<and> valid start_of_time \<and>
   (\<forall>t. valid t \<and> t \<noteq> start_of_time \<longrightarrow> op_lt start_of_time t) \<and>
   m_timestamp end_of_time = 0xFFFFFFFF \<and> valid end_of_time \<and>
   (\<forall>t. valid t \<and> t \<noteq> end_of_time \<longrightarrow> op_gt end_of_time t) \<and>
   min_op_start_value = end_of_time \<and> max_op_start_value = start_of_time"
proof -
  have s: "m_timestamp start_of_time = 1"
    by (simp add: start_of_time_def Timestamp_of_int_def)
  have e: "m_timestamp end_of_time = 0xFFFFFFFF"
    by (simp add: end_of_time_def Timestamp_of_int_def)
  have lo: "op_lt start_of_time t" if "valid t" "t \<noteq> start_of_time" for t
  proof -
    from that(2) have "m_timestamp t \<noteq> 1" using s by (metis Timestamp.equality unit.exhaust)
    moreover from that(1) have "m_timestamp t \<noteq> 0" by (simp add: valid_def)
    ultimately have "1 < m_timestamp t" by unat_arith
    then show ?thesis by (simp add: op_lt_def to_uint32_def s)
  qed
  have hi: "op_gt end_of_time t" if "t \<noteq> end_of_time" for t
  proof -
    from that have "m_timestamp t \<noteq> 0xFFFFFFFF"
      using e by (metis Timestamp.equality unit.exhaust)
    then have "unat (m_timestamp t) \<noteq> unat (0xFFFFFFFF :: 32 word)"
      by (simp only: word_unat_eq_iff not_False_eq_True)
    moreover have "unat (m_timestamp t) < 2 ^ 32"
      using unsigned_less [of "m_timestamp t"] by simp
    ultimately have "m_timestamp t < 0xFFFFFFFF"
      by (simp add: word_less_nat_alt)
    then show ?thesis by (simp add: op_gt_def op_lt_def to_uint32_def e)
  qed
  show ?thesis
    using s e lo hi by (simp add: valid_def min_op_start_value_def max_op_start_value_def)
qed

theorem sentinels_witness:
  "valid (Timestamp_of_int 1469439000) \<and> Timestamp_of_int 1469439000 \<noteq> start_of_time \<and>
   Timestamp_of_int 1469439000 \<noteq> end_of_time \<and>
   op_lt start_of_time (Timestamp_of_int 1469439000) \<and>
   op_gt end_of_time (Timestamp_of_int 1469439000)"
proof -
  have h: "valid (Timestamp_of_int 1469439000)"
    "Timestamp_of_int 1469439000 \<noteq> start_of_time"
    "Timestamp_of_int 1469439000 \<noteq> end_of_time"
    by (simp_all add: valid_def Timestamp_of_int_def start_of_time_def end_of_time_def)
  with sentinels show ?thesis by blast
qed

subsection \<open>Which operations leave the objects alone\<close>




subsection \<open>What the parser rejects and what it lets through\<close>

text \<open>
  Claim C2, as stated: every input that deviates from the 20-character shape, a wrong
  length included, raises the parse error. It fails for an input that is too long: the
  parser reads positions 0 to 19 and nothing after them, so a well-formed timestamp
  followed by more characters is parsed like the timestamp alone.
\<close>

theorem trailing_text_accepted:
  "length ''2015-01-01T00:00:00Zx'' = 21 \<and>
   parse_timestamp ''2015-01-01T00:00:00Zx'' = Inr 1420070400 \<and>
   Timestamp_of_string ''2015-01-01T00:00:00Z and more'' = Inr (Timestamp_of_int 1420070400)"
proof -
  have "parse_timestamp ''2015-01-01T00:00:00Zx'' = Inr 1420070400" by code_simp
  moreover have
    "Timestamp_of_string ''2015-01-01T00:00:00Z and more'' = Inr (Timestamp_of_int 1420070400)"
    by code_simp
  ultimately show ?thesis by simp
qed

text \<open>
  Claim C2, amended. An input of fewer than 20 characters, or whose first 20 characters
  deviate from the shape (a wrong separator, a character that is no digit), or whose
  month is below 01 or above 12, whose day is 00 or exceeds the bound of its month in
  the table 31, 29, 31, 30, 31, 30, 31, 31, 30, 31, 30, 31, whose hour is above 23,
  whose minute is above 59 or whose second is above 60, raises
  \<open>std::invalid_argument\<close> with the message "can not parse timestamp", from the
  parser and so from the string constructor, which then constructs no timestamp.
  Characters after the first 20 are not looked at.
\<close>

theorem parse_timestamp_rejects:
  assumes "length s < 20 \<or> \<not> spec_shape s \<or>
    spec_month s < 1 \<or> 12 < spec_month s \<or>
    spec_day s < 1 \<or> days_in_month ! nat (spec_month s - 1) < spec_day s \<or>
    23 < spec_hour s \<or> 59 < spec_minute s \<or> 60 < spec_second s"
  shows "parse_timestamp s = Inl (Invalid_argument ''can not parse timestamp'') \<and>
    Timestamp_of_string s = Inl (Invalid_argument ''can not parse timestamp'')"
proof -
  from assms have "\<not> (spec_shape s \<and> spec_in_range s)"
    by (auto simp: spec_shape_def spec_in_range_def)
  then have "\<not> (spec_shape s \<and> spec_in_range s \<and> 1900 \<le> spec_year s)" by blast
  then show ?thesis by (simp only: parse_timestamp_eq Timestamp_of_string_eq if_False simp_thms)
qed

theorem parse_timestamp_rejects_witness:
  "\<not> spec_shape ''2015/01/01T00:00:00Z'' \<and>
   parse_timestamp ''2015/01/01T00:00:00Z'' = Inl (Invalid_argument ''can not parse timestamp'') \<and>
   spec_shape ''2016-13-01T00:00:00Z'' \<and> 12 < spec_month ''2016-13-01T00:00:00Z'' \<and>
   parse_timestamp ''2016-13-01T00:00:00Z'' = Inl (Invalid_argument ''can not parse timestamp'') \<and>
   length ''2016-01-01'' < 20 \<and>
   parse_timestamp ''2016-01-01'' = Inl (Invalid_argument ''can not parse timestamp'')"
proof -
  have a: "\<not> spec_shape ''2015/01/01T00:00:00Z''" by code_simp
  have b: "spec_shape ''2016-13-01T00:00:00Z''" "12 < spec_month ''2016-13-01T00:00:00Z''"
    by code_simp+
  have c: "length ''2016-01-01'' < 20" by simp
  show ?thesis
    using a b c parse_timestamp_rejects [of "''2015/01/01T00:00:00Z''"]
      parse_timestamp_rejects [of "''2016-13-01T00:00:00Z''"]
      parse_timestamp_rejects [of "''2016-01-01''"]
    by blast
qed

text \<open>The inputs the claim lists, one by one.\<close>

lemma rejected_examples:
  "parse_timestamp ''2015-01-01T00:00:00'' = Inl (Invalid_argument ''can not parse timestamp'')"
  "parse_timestamp ''2015/01/01T00:00:00Z'' = Inl (Invalid_argument ''can not parse timestamp'')"
  "parse_timestamp ''2015-00-01T00:00:00Z'' = Inl (Invalid_argument ''can not parse timestamp'')"
  "parse_timestamp ''2015-13-01T00:00:00Z'' = Inl (Invalid_argument ''can not parse timestamp'')"
  "parse_timestamp ''2015-01-00T00:00:00Z'' = Inl (Invalid_argument ''can not parse timestamp'')"
  "parse_timestamp ''2015-01-32T00:00:00Z'' = Inl (Invalid_argument ''can not parse timestamp'')"
  "parse_timestamp ''2015-02-30T00:00:00Z'' = Inl (Invalid_argument ''can not parse timestamp'')"
  "parse_timestamp ''2015-04-31T00:00:00Z'' = Inl (Invalid_argument ''can not parse timestamp'')"
  "parse_timestamp ''2015-01-01T24:00:00Z'' = Inl (Invalid_argument ''can not parse timestamp'')"
  "parse_timestamp ''2015-01-01T00:60:00Z'' = Inl (Invalid_argument ''can not parse timestamp'')"
  "parse_timestamp ''2015-01-01T00:00:61Z'' = Inl (Invalid_argument ''can not parse timestamp'')"
  by code_simp+

text \<open>
  In general: what follows the first 20 characters has no influence on the result.
\<close>

lemma str_at_append: "i < length s \<Longrightarrow> str_at (s @ x) i = str_at s i"
  by (simp add: str_at_def nth_append)

lemma parse_timestamp_ignores_tail:
  assumes "20 \<le> length s"
  shows "parse_timestamp (s @ x) = parse_timestamp s"
proof -
  have a: "str_at (s @ x) i = str_at s i" if "i < 20" for i
    using that assms by (intro str_at_append) simp
  have "shape_ok (s @ x) = shape_ok s"
    by (simp add: shape_ok_def a)
  moreover have "parsed_tm (s @ x) = parsed_tm s"
    by (simp add: parsed_tm_def a)
  ultimately show ?thesis by (simp add: parse_timestamp_def)
qed

text \<open>
  Claim C8, as stated: every well-formed input with a second of 60 and the other fields
  in range is parsed. The specification takes every four-digit year to be in range; the
  parser checks \<open>tm_year >= 0\<close> after subtracting 1900, so a year before 1900 is
  rejected, with a second of 60 as with any other.
\<close>

theorem second_60_before_1900_rejected:
  "spec_shape ''1899-06-30T23:59:60Z'' \<and> spec_in_range ''1899-06-30T23:59:60Z'' \<and>
   spec_second ''1899-06-30T23:59:60Z'' = 60 \<and>
   parse_timestamp ''1899-06-30T23:59:60Z'' = Inl (Invalid_argument ''can not parse timestamp'')"
proof -
  have "spec_shape ''1899-06-30T23:59:60Z''" by code_simp
  moreover have "spec_in_range ''1899-06-30T23:59:60Z''" by code_simp
  moreover have "spec_second ''1899-06-30T23:59:60Z'' = 60" by code_simp
  moreover have
    "parse_timestamp ''1899-06-30T23:59:60Z'' = Inl (Invalid_argument ''can not parse timestamp'')"
    by code_simp
  ultimately show ?thesis by simp
qed

text \<open>
  Claim C8, amended. For every well-formed input whose year is 1900 or later, whose
  second is exactly 60 and whose other fields are in range, the parser does not fail:
  its result is the calendar-to-epoch conversion of the fields as they are, that is the
  days since the epoch times 86400 plus hours, minutes and 60 seconds, with no
  leap-second adjustment.
\<close>

theorem second_60_accepted:
  assumes "spec_shape s" "spec_in_range s" "1900 \<le> spec_year s" "spec_second s = 60"
  shows "parse_timestamp s = Inr (spec_epoch_seconds s) \<and>
    Timestamp_of_string s = Inr (Timestamp_of_int (spec_epoch_seconds s)) \<and>
    spec_epoch_seconds s =
      (days_before_year (spec_year s - 1900) +
       mon_yday (isleap (spec_year s)) ! nat (spec_month s - 1) + (spec_day s - 1)) * 86400 +
      spec_hour s * 3600 + spec_minute s * 60 + 60"
  using assms by (simp add: parse_timestamp_eq Timestamp_of_string_eq spec_epoch_seconds_def)

theorem second_60_accepted_witness:
  "spec_shape ''2016-12-31T23:59:60Z'' \<and> spec_in_range ''2016-12-31T23:59:60Z'' \<and>
   1900 \<le> spec_year ''2016-12-31T23:59:60Z'' \<and> spec_second ''2016-12-31T23:59:60Z'' = 60 \<and>
   parse_timestamp ''2016-12-31T23:59:60Z'' = Inr 1483228800 \<and>
   parse_timestamp ''2017-01-01T00:00:00Z'' = Inr 1483228800"
proof -
  have h: "spec_shape ''2016-12-31T23:59:60Z''" "spec_in_range ''2016-12-31T23:59:60Z''"
    "1900 \<le> spec_year ''2016-12-31T23:59:60Z''" "spec_second ''2016-12-31T23:59:60Z'' = 60"
    by code_simp+
  have v: "spec_epoch_seconds ''2016-12-31T23:59:60Z'' = 1483228800" by code_simp
  have n: "parse_timestamp ''2017-01-01T00:00:00Z'' = Inr 1483228800" by code_simp
  show ?thesis
    using h n second_60_accepted [OF h] unfolding v by blast
qed

subsection \<open>Texts before the epoch\<close>

text \<open>
  Claim C10, as stated: every well-formed, range-valid text of the year 1969 or earlier
  is parsed, to a negative number of seconds. It fails in two places. A year before 1900
  is rejected by the check \<open>tm_year >= 0\<close>, although the specification counts every
  four-digit year as in range. And the text "1969-12-31T23:59:60Z", with the second of 60
  that the parser admits, is converted to 0, which is not negative.
\<close>

theorem pre_epoch_exceptions:
  "spec_shape ''1899-12-31T23:59:59Z'' \<and> spec_in_range ''1899-12-31T23:59:59Z'' \<and>
   spec_year ''1899-12-31T23:59:59Z'' = 1899 \<and>
   parse_timestamp ''1899-12-31T23:59:59Z'' = Inl (Invalid_argument ''can not parse timestamp'') \<and>
   spec_shape ''1969-12-31T23:59:60Z'' \<and> spec_in_range ''1969-12-31T23:59:60Z'' \<and>
   spec_year ''1969-12-31T23:59:60Z'' = 1969 \<and>
   parse_timestamp ''1969-12-31T23:59:60Z'' = Inr 0"
proof -
  have "spec_shape ''1899-12-31T23:59:59Z''" "spec_in_range ''1899-12-31T23:59:59Z''"
    "spec_year ''1899-12-31T23:59:59Z'' = 1899"
    "parse_timestamp ''1899-12-31T23:59:59Z'' = Inl (Invalid_argument ''can not parse timestamp'')"
    by code_simp+
  moreover have "spec_shape ''1969-12-31T23:59:60Z''" "spec_in_range ''1969-12-31T23:59:60Z''"
    "spec_year ''1969-12-31T23:59:60Z'' = 1969"
    "parse_timestamp ''1969-12-31T23:59:60Z'' = Inr 0"
    by code_simp+
  ultimately show ?thesis by simp
qed

text \<open>
  Claim C10, amended. For a well-formed, range-valid text of a year up to 1969: if the
  year is before 1900 the parser fails with the parse error; if the year is 1900 or later
  the parser succeeds, the result is at most 0 and is 0 only for "1969-12-31T23:59:60Z",
  and the string constructor stores the result modulo \<open>2 ^ 32\<close>, which for a negative
  result is the result plus \<open>2 ^ 32\<close>. In particular "1969-12-31T23:59:59Z" gives
  0xFFFFFFFF, the value of \<open>end_of_time()\<close>.
\<close>

theorem pre_epoch_text:
  assumes "spec_shape s" "spec_in_range s" "spec_year s \<le> 1969"
  shows "(spec_year s < 1900 \<longrightarrow>
            parse_timestamp s = Inl (Invalid_argument ''can not parse timestamp'') \<and>
            Timestamp_of_string s = Inl (Invalid_argument ''can not parse timestamp'')) \<and>
         (1900 \<le> spec_year s \<longrightarrow>
            parse_timestamp s = Inr (spec_epoch_seconds s) \<and>
            - 2208988800 \<le> spec_epoch_seconds s \<and> spec_epoch_seconds s \<le> 0 \<and>
            (spec_epoch_seconds s = 0 \<longleftrightarrow>
               spec_year s = 1969 \<and> spec_month s = 12 \<and> spec_day s = 31 \<and>
               spec_hour s = 23 \<and> spec_minute s = 59 \<and> spec_second s = 60) \<and>
            Timestamp_of_string s = Inr (Timestamp_of_int (spec_epoch_seconds s)) \<and>
            seconds_since_epoch (Timestamp_of_int (spec_epoch_seconds s)) =
              spec_epoch_seconds s mod 2 ^ 32 \<and>
            (spec_epoch_seconds s < 0 \<longrightarrow>
               seconds_since_epoch (Timestamp_of_int (spec_epoch_seconds s)) =
                 spec_epoch_seconds s + 2 ^ 32)) \<and>
         Timestamp_of_string ''1969-12-31T23:59:59Z'' = Inr end_of_time \<and>
         m_timestamp end_of_time = 0xFFFFFFFF"
proof -
  have a: "parse_timestamp s = Inl (Invalid_argument ''can not parse timestamp'') \<and>
      Timestamp_of_string s = Inl (Invalid_argument ''can not parse timestamp'')"
    if "spec_year s < 1900"
    using that by (simp add: parse_timestamp_eq Timestamp_of_string_eq)
  have b: "parse_timestamp s = Inr (spec_epoch_seconds s)"
    "Timestamp_of_string s = Inr (Timestamp_of_int (spec_epoch_seconds s))"
    if "1900 \<le> spec_year s"
    using that assms by (simp_all add: parse_timestamp_eq Timestamp_of_string_eq)
  have lo: "- 2208988800 \<le> spec_epoch_seconds s" if "1900 \<le> spec_year s"
    using spec_epoch_lower [OF assms(2) that] .
  note up = spec_epoch_pre_1970 [OF assms(2,3)]
  have w: "seconds_since_epoch (Timestamp_of_int (spec_epoch_seconds s)) =
      spec_epoch_seconds s + 2 ^ 32"
    if "1900 \<le> spec_year s" "spec_epoch_seconds s < 0"
  proof -
    have "(spec_epoch_seconds s + 2 ^ 32) mod 2 ^ 32 = spec_epoch_seconds s + 2 ^ 32"
      using lo [OF that(1)] that(2) by (intro mod_pos_pos_trivial) simp_all
    then show ?thesis by (simp add: seconds_since_epoch_of_int)
  qed
  have e: "Timestamp_of_string ''1969-12-31T23:59:59Z'' = Inr end_of_time" by code_simp
  have m: "m_timestamp end_of_time = 0xFFFFFFFF"
    by (simp add: end_of_time_def Timestamp_of_int_def)
  show ?thesis
    using a b lo up w e m seconds_since_epoch_of_int [of "spec_epoch_seconds s"] by blast
qed

theorem pre_epoch_text_witness:
  "spec_shape ''1969-07-20T20:17:40Z'' \<and> spec_in_range ''1969-07-20T20:17:40Z'' \<and>
   spec_year ''1969-07-20T20:17:40Z'' \<le> 1969 \<and> 1900 \<le> spec_year ''1969-07-20T20:17:40Z'' \<and>
   parse_timestamp ''1969-07-20T20:17:40Z'' = Inr (- 14182940) \<and>
   seconds_since_epoch (Timestamp_of_int (- 14182940)) = 4280784356"
proof -
  have h: "spec_shape ''1969-07-20T20:17:40Z''" "spec_in_range ''1969-07-20T20:17:40Z''"
    "spec_year ''1969-07-20T20:17:40Z'' \<le> 1969"
    by code_simp+
  have y: "1900 \<le> spec_year ''1969-07-20T20:17:40Z''" by code_simp
  have v: "spec_epoch_seconds ''1969-07-20T20:17:40Z'' = - 14182940" by code_simp
  have "parse_timestamp ''1969-07-20T20:17:40Z'' = Inr (- 14182940) \<and>
      seconds_since_epoch (Timestamp_of_int (- 14182940)) = - 14182940 + 2 ^ 32"
    using pre_epoch_text [OF h] y unfolding v by simp
  then show ?thesis using h y by simp
qed

end
